theory Spec2Isabelle
  imports Complex_Main
begin

section \<open>The text-layout core of \<open>app.js\<close>\<close>

text \<open>
  The development embeds the two algorithmic parts of \<open>src/app.js\<close>: the function
  \<open>breakTextIntoLines\<close> (lines 44-72) and steps 7-9 of \<open>generatePDF\<close> (lines 155-188),
  which compute where every line of the name is drawn on the first page.

  Conventions of the embedding.
  \<^item> A JavaScript string is a list of its UTF-16 code units, since the source walks the
    string with \<open>text[i]\<close> for \<open>i < text.length\<close>. The functions are polymorphic in
    the type \<open>'c\<close> of a code unit; concrete examples use \<open>string\<close>, and natural numbers
    where the value of a code unit matters.
  \<^item> A JavaScript number is a \<open>real\<close>, and every arithmetic operation of the source
    rounds its exact result to the nearest IEEE-754 binary64 value, ties to even
    (\<open>fl\<close> below). The exponent range of the model is unbounded: overflow to an
    infinity, gradual underflow and \<open>NaN\<close> are outside the model. Comparisons are exact.
  \<^item> The font object is its method \<open>widthOfTextAtSize\<close>, a function from the text and the
    size to either a failure \<open>Inl e\<close> (the method throws) or a width \<open>Inr w\<close>. The source
    never catches what the method throws, so an \<open>Inl\<close> leaves every function that calls
    it unchanged.
\<close>

text \<open>
  What a call can fail with, by the kinds that section 7 of the specification names:
  \<open>MetricsFailure\<close> stands for whatever the metrics provider throws. The source has no
  \<open>throw\<close> of its own in the functions embedded here.
\<close>

datatype failure = InvalidParameter | MetricsFailure

subsection \<open>JavaScript numbers\<close>

text \<open>
  Rounding to an integer, ties to the even neighbour; it is used on non-negative
  arguments only.
\<close>

definition roundHalfEven :: "real \<Rightarrow> int" where
  "roundHalfEven t =
     (let f = \<lfloor>t\<rfloor>; d = t - of_int f in
        if d < 1 / 2 then f else if 1 / 2 < d then f + 1 else if even f then f else f + 1)"

text \<open>
  \<open>binade r\<close> is the exponent \<open>e\<close> with \<open>2^e \<le> |r| < 2^(e+1)\<close>, and \<open>ulp r\<close> the distance
  between neighbouring binary64 values of that magnitude (53 significant bits).
\<close>

definition binade :: "real \<Rightarrow> int" where
  "binade r = \<lfloor>log 2 \<bar>r\<bar>\<rfloor>"

definition ulp :: "real \<Rightarrow> real" where
  "ulp r = 2 powi (binade r - 52)"

text \<open>The binary64 value nearest to \<open>r\<close>, ties to even.\<close>

definition fl :: "real \<Rightarrow> real" where
  "fl r = (if r = 0 then 0
           else sgn r * (of_int (roundHalfEven (\<bar>r\<bar> / ulp r)) * ulp r))"

text \<open>
  The operators \<open>+\<close>, \<open>-\<close>, \<open>*\<close> and \<open>/\<close> of the source. The source divides by the
  constant 2 only.
\<close>

definition add64 :: "real \<Rightarrow> real \<Rightarrow> real" where
  "add64 a b = fl (a + b)"

definition sub64 :: "real \<Rightarrow> real \<Rightarrow> real" where
  "sub64 a b = fl (a - b)"

definition mul64 :: "real \<Rightarrow> real \<Rightarrow> real" where
  "mul64 a b = fl (a * b)"

definition div64 :: "real \<Rightarrow> real \<Rightarrow> real" where
  "div64 a b = fl (a / b)"

text \<open>The rounding error of an operation whose exact result is \<open>r\<close>.\<close>

definition roundingError :: "real \<Rightarrow> real" where
  "roundingError r = fl r - r"

subsection \<open>\<open>breakTextIntoLines\<close>\<close>

type_synonym 'c font = "'c list \<Rightarrow> real \<Rightarrow> failure + real"

text \<open>
  The body of the \<open>for\<close> loop (lines 49-59), on the loop's two variables \<open>lines\<close> and
  \<open>currentLine\<close> and the code unit \<open>char = text[i]\<close>.
\<close>

definition breakStep ::
  "'c font \<Rightarrow> real \<Rightarrow> real \<Rightarrow> 'c list list \<times> 'c list \<Rightarrow> 'c \<Rightarrow> failure + 'c list list \<times> 'c list"
where
  "breakStep font fontSize maxWidth st char =
     (case st of (lines, currentLine) \<Rightarrow>
        (let testLine = currentLine @ [char] in
           (case font testLine fontSize of
              Inl err \<Rightarrow> Inl err
            | Inr testWidth \<Rightarrow>
                if testWidth > maxWidth \<and> length currentLine > 0
                then Inr (lines @ [currentLine], [char])
                else Inr (lines, testLine))))"

text \<open>The loop of lines 48-60: one step per code unit, from left to right.\<close>

fun breakLoop ::
  "'c font \<Rightarrow> real \<Rightarrow> real \<Rightarrow> 'c list \<Rightarrow> 'c list list \<times> 'c list \<Rightarrow> failure + 'c list list \<times> 'c list"
where
  "breakLoop font fontSize maxWidth [] st = Inr st"
| "breakLoop font fontSize maxWidth (char # rest) st =
     (case breakStep font fontSize maxWidth st char of
        Inl err \<Rightarrow> Inl err
      | Inr st' \<Rightarrow> breakLoop font fontSize maxWidth rest st')"

text \<open>
  The whole function: the loop from \<open>lines = []\<close>, \<open>currentLine = ''\<close>, then the push of
  the last line (lines 63-65). The \<open>console.log\<close> calls have no effect on the result.
\<close>

definition breakTextIntoLines ::
  "'c list \<Rightarrow> 'c font \<Rightarrow> real \<Rightarrow> real \<Rightarrow> failure + 'c list list"
where
  "breakTextIntoLines text font fontSize maxWidth =
     (case breakLoop font fontSize maxWidth text ([], []) of
        Inl err \<Rightarrow> Inl err
      | Inr (lines, currentLine) \<Rightarrow>
          Inr (if length currentLine > 0 then lines @ [currentLine] else lines))"

subsection \<open>Steps 7-9 of \<open>generatePDF\<close>\<close>

text \<open>
  The fields of the global \<open>CONFIG\<close> that the layout reads (\<open>CONFIG.fontSize\<close>,
  \<open>CONFIG.lineHeight\<close>, \<open>CONFIG.topMargin\<close>; the prefix \<open>cfg_\<close> keeps the field names apart
  from the local names of the functions), and the values the source gives them. The
  literal \<open>1.4\<close> denotes the binary64 value nearest to 14/10.
\<close>

record config =
  cfg_fontSize :: real
  cfg_lineHeight :: real
  cfg_topMargin :: real

definition CONFIG :: config where
  "CONFIG = \<lparr>cfg_fontSize = 120, cfg_lineHeight = fl (14 / 10), cfg_topMargin = 180\<rparr>"

text \<open>
  One call \<open>firstPage.drawText(line, {x, y, size, font, color})\<close>. The options \<open>font\<close> and
  \<open>color\<close> are the same in every call and are left out.
\<close>

record 'c drawText =
  dt_text :: "'c list"
  dt_x :: real
  dt_y :: real
  dt_size :: real

text \<open>
  \<open>lines.forEach((line, index) => ...)\<close> of lines 174-188: the calls it makes are appended
  to \<open>page\<close>, in the order in which they are made.
\<close>

fun forEachLine ::
  "'c font \<Rightarrow> real \<Rightarrow> real \<Rightarrow> real \<Rightarrow> real \<Rightarrow> nat \<Rightarrow> 'c list list \<Rightarrow> 'c drawText list
     \<Rightarrow> failure + 'c drawText list"
where
  "forEachLine customFont fontSize width startY lineHeight index [] page = Inr page"
| "forEachLine customFont fontSize width startY lineHeight index (line # rest) page =
     (let y = sub64 startY (mul64 (real index) lineHeight) in
        (case customFont line fontSize of
           Inl err \<Rightarrow> Inl err
         | Inr lineWidth \<Rightarrow>
             (let x = div64 (sub64 width lineWidth) 2 in
                forEachLine customFont fontSize width startY lineHeight (Suc index) rest
                  (page @ [\<lparr>dt_text = line, dt_x = x, dt_y = y, dt_size = fontSize\<rparr>]))))"

text \<open>
  The local constants of step 8 (lines 163-169), as functions of what they depend on:
  the configuration, the page height and \<open>n = lines.length\<close>. The source computes
  \<open>lines.length - 1\<close> on numbers, so it is \<open>- 1\<close> for no line. Each operator is the
  rounding one, in the order in which the source's expression evaluates.
\<close>

definition lineHeight :: "config \<Rightarrow> real" where
  "lineHeight cfg = mul64 (cfg_fontSize cfg) (cfg_lineHeight cfg)"

definition targetCenterY :: "config \<Rightarrow> real \<Rightarrow> real" where
  "targetCenterY cfg height =
     sub64 (sub64 height (cfg_topMargin cfg)) (div64 (cfg_fontSize cfg) 2)"

definition totalTextHeight :: "config \<Rightarrow> nat \<Rightarrow> real" where
  "totalTextHeight cfg n =
     add64 (mul64 (sub64 (real n) 1) (lineHeight cfg)) (cfg_fontSize cfg)"

definition startY :: "config \<Rightarrow> real \<Rightarrow> nat \<Rightarrow> real" where
  "startY cfg height n =
     sub64 (add64 (targetCenterY cfg height) (div64 (totalTextHeight cfg n) 2))
       (cfg_fontSize cfg)"

text \<open>Steps 8 and 9 (lines 163-188), as a function of the \<open>lines\<close> of step 7.\<close>

definition positionLines ::
  "config \<Rightarrow> 'c font \<Rightarrow> real \<Rightarrow> real \<Rightarrow> 'c list list \<Rightarrow> failure + 'c drawText list"
where
  "positionLines cfg customFont width height lines =
     forEachLine customFont (cfg_fontSize cfg) width
       (startY cfg height (length lines)) (lineHeight cfg) 0 lines []"

text \<open>
  Steps 7-9 of \<open>generatePDF(name)\<close>: the text drawn on the first page, whose size is
  \<open>width\<close> by \<open>height\<close>. Fetching the template and the font, embedding the font, saving
  and downloading (steps 1-6 and 10) are input and output around this computation and
  are not part of the model.
\<close>

definition generatePDF ::
  "config \<Rightarrow> 'c font \<Rightarrow> real \<Rightarrow> real \<Rightarrow> 'c list \<Rightarrow> failure + 'c drawText list"
where
  "generatePDF cfg customFont width height name =
     (let fontSize = cfg_fontSize cfg;
          marginX = 30;
          maxLineWidth = sub64 width (mul64 marginX 2)
      in (case breakTextIntoLines name customFont fontSize maxLineWidth of
            Inl err \<Rightarrow> Inl err
          | Inr lines \<Rightarrow> positionLines cfg customFont width height lines))"

subsection \<open>Metrics providers and their preconditions\<close>

text \<open>
  A metrics provider that never throws is given by its width function \<open>measureText\<close>; this
  is the \<open>measureText\<close> of the specification's contract.
\<close>

definition provider :: "('c list \<Rightarrow> real \<Rightarrow> real) \<Rightarrow> 'c font" where
  "provider measureText text fontSize = Inr (measureText text fontSize)"

text \<open>
  Two preconditions on a width function at a fixed size. \<open>prefixMonotone\<close>: appending a
  code unit never makes a string narrower (the specification's "monotonic non-decreasing
  under prefix extension"). \<open>suffixMonotone\<close>: removing leading code units from a string
  never makes what is left wider.
\<close>

definition prefixMonotone :: "('c list \<Rightarrow> real \<Rightarrow> real) \<Rightarrow> real \<Rightarrow> bool" where
  "prefixMonotone measureText fontSize \<longleftrightarrow>
     (\<forall>s c. measureText s fontSize \<le> measureText (s @ [c]) fontSize)"

definition suffixMonotone :: "('c list \<Rightarrow> real \<Rightarrow> real) \<Rightarrow> real \<Rightarrow> bool" where
  "suffixMonotone measureText fontSize \<longleftrightarrow>
     (\<forall>p s. s \<noteq> [] \<longrightarrow> measureText s fontSize \<le> measureText (p @ s) fontSize)"

text \<open>Every non-empty string has a strictly positive width at the given size.\<close>

definition positiveWidths :: "('c list \<Rightarrow> real \<Rightarrow> real) \<Rightarrow> real \<Rightarrow> bool" where
  "positiveWidths measureText fontSize \<longleftrightarrow>
     (\<forall>s. s \<noteq> [] \<longrightarrow> 0 < measureText s fontSize)"

text \<open>
  The \<open>drawText\<close> call that the \<open>forEach\<close> makes for the pair \<open>(index, line)\<close> when the
  provider is \<open>provider measureText\<close>.
\<close>

definition placed ::
  "('c list \<Rightarrow> real \<Rightarrow> real) \<Rightarrow> real \<Rightarrow> real \<Rightarrow> real \<Rightarrow> real \<Rightarrow> nat \<times> 'c list \<Rightarrow> 'c drawText"
where
  "placed measureText fontSize width sY lh il =
     \<lparr>dt_text = snd il, dt_x = div64 (sub64 width (measureText (snd il) fontSize)) 2,
      dt_y = sub64 sY (mul64 (real (fst il)) lh), dt_size = fontSize\<rparr>"

subsection \<open>Width functions for the examples\<close>

text \<open>
  \<open>monoFont\<close>: every code unit is one em wide, as in a monospaced font
  (the repository ships \<open>ChenYuluoyan-Thin-Monospaced.ttf\<close>).
\<close>

definition monoFont :: "'c list \<Rightarrow> real \<Rightarrow> real" where
  "monoFont s fontSize = real (length s) * fontSize"

text \<open>
  The code units of the JavaScript string that holds the single character with code
  point \<open>cp\<close>: one unit in the Basic Multilingual Plane, a surrogate pair above it. Code
  units are written as natural numbers.
\<close>

definition utf16 :: "nat \<Rightarrow> nat list" where
  "utf16 cp =
     (if cp < 65536 then [cp]
      else [55296 + (cp - 65536) div 1024, 56320 + (cp - 65536) mod 1024])"

text \<open>
  \<open>sansFont\<close>: every code unit advances 0.556 em (the letter \<open>a\<close> of Helvetica); the width
  returned is a binary64 value, as every number the metrics provider returns.
\<close>

definition sansFont :: "'c list \<Rightarrow> real \<Rightarrow> real" where
  "sansFont s fontSize = fl (real (length s) * 556 / 1000 * fontSize)"

text \<open>
  \<open>leadFont\<close>: the first code unit of a run fixes the advance of every code unit of the
  run (2 em after a leading \<open>a\<close>, 10 em after a leading \<open>c\<close>, 1 em otherwise). Appending
  to a run never makes it narrower, but a run can be narrower than its own tail.
\<close>

definition leadWidth :: "char \<Rightarrow> real" where
  "leadWidth c = (if c = CHR ''a'' then 2 else if c = CHR ''c'' then 10 else 1)"

definition leadFont :: "string \<Rightarrow> real \<Rightarrow> real" where
  "leadFont s fontSize =
     (case s of [] \<Rightarrow> 0 | c # _ \<Rightarrow> real (length s) * leadWidth c * fontSize)"

subsection \<open>Basic facts about rounding\<close>

lemma roundHalfEven_error: "\<bar>of_int (roundHalfEven t) - t\<bar> \<le> 1 / 2"
  unfolding roundHalfEven_def Let_def by (auto simp: abs_le_iff)

lemma roundHalfEven_of_int [simp]: "roundHalfEven (of_int z) = z"
  by (simp add: roundHalfEven_def)

lemma roundHalfEven_ge: "of_int a \<le> t \<Longrightarrow> a \<le> roundHalfEven t"
proof -
  assume "of_int a \<le> t"
  then have "a \<le> \<lfloor>t\<rfloor>" by (simp add: le_floor_iff)
  then show ?thesis unfolding roundHalfEven_def Let_def by auto
qed

lemma roundHalfEven_le: "t \<le> of_int b \<Longrightarrow> roundHalfEven t \<le> b"
proof -
  assume le: "t \<le> of_int b"
  then have fb: "\<lfloor>t\<rfloor> \<le> b" by (simp add: floor_le_iff) 
  show ?thesis
  proof (cases "\<lfloor>t\<rfloor> = b")
    case True
    with le have "t - of_int \<lfloor>t\<rfloor> \<le> 0" by simp
    then show ?thesis unfolding roundHalfEven_def Let_def using True by auto
  next
    case False
    with fb have "\<lfloor>t\<rfloor> + 1 \<le> b" by simp
    with fb show ?thesis unfolding roundHalfEven_def Let_def by auto
  qed
qed

lemma binade_bounds:
  assumes "r \<noteq> 0"
  shows "2 powi binade r \<le> \<bar>r\<bar>" and "\<bar>r\<bar> < 2 powi (binade r + 1)"
proof -
  from assms have pos: "0 < \<bar>r\<bar>" by simp
  have "real_of_int (binade r) \<le> log 2 \<bar>r\<bar>" by (simp add: binade_def)
  then have "2 powr real_of_int (binade r) \<le> \<bar>r\<bar>"
    using pos by (simp add: le_log_iff)
  then show "2 powi binade r \<le> \<bar>r\<bar>" by (simp add: powr_real_of_int')
  have "log 2 \<bar>r\<bar> < real_of_int (binade r + 1)" by (simp add: binade_def)
  then have "\<bar>r\<bar> < 2 powr real_of_int (binade r + 1)"
    using pos by (simp add: log_less_iff)
  then show "\<bar>r\<bar> < 2 powi (binade r + 1)"
    using powr_real_of_int' [of "2::real" "binade r + 1"] by simp
qed

lemma binade_eqI:
  assumes "2 powi e \<le> \<bar>r\<bar>" and "\<bar>r\<bar> < 2 powi (e + 1)"
  shows "binade r = e"
proof -
  have "0 < (2::real) powi e" by simp
  with assms have pos: "0 < \<bar>r\<bar>" by linarith
  from assms(1) have "2 powr real_of_int e \<le> \<bar>r\<bar>" by (simp add: powr_real_of_int')
  then have a: "real_of_int e \<le> log 2 \<bar>r\<bar>" using pos by (simp add: le_log_iff)
  from assms(2) have "\<bar>r\<bar> < 2 powr real_of_int (e + 1)"
    using powr_real_of_int' [of "2::real" "e + 1"] by simp
  then have b: "log 2 \<bar>r\<bar> < real_of_int (e + 1)" using pos by (simp add: log_less_iff)
  from a b show ?thesis unfolding binade_def by (simp add: floor_unique)
qed

lemma fl_eval:
  assumes "2 powi e \<le> \<bar>r\<bar>" and "\<bar>r\<bar> < 2 powi (e + 1)"
  shows "fl r = sgn r * (of_int (roundHalfEven (\<bar>r\<bar> / 2 powi (e - 52))) * 2 powi (e - 52))"
proof -
  have "0 < (2::real) powi e" by simp
  from this assms(1) have "0 < \<bar>r\<bar>" by (rule less_le_trans)
  then have "r \<noteq> 0" by simp
  with binade_eqI [OF assms] show ?thesis by (simp add: fl_def ulp_def)
qed

lemma fl_0 [simp]: "fl 0 = 0" by (simp add: fl_def)

lemma fl_minus: "fl (- r) = - fl r"
  by (simp add: fl_def ulp_def binade_def sgn_minus)

text \<open>The scaled magnitude lies between \<open>2^52\<close> and \<open>2^53\<close>.\<close>

lemma scaled_bounds:
  assumes "r \<noteq> 0"
  shows "2 ^ 52 \<le> \<bar>r\<bar> / ulp r" and "\<bar>r\<bar> / ulp r < 2 ^ 53"
proof -
  have q: "ulp r = 2 powi binade r / 2 ^ 52"
    by (simp add: ulp_def power_int_diff)
  from binade_bounds [OF assms] show "2 ^ 52 \<le> \<bar>r\<bar> / ulp r"
    by (simp add: q field_simps)
  have "(2::real) powi (binade r + 1) = 2 * 2 powi binade r" by (simp add: power_int_add)
  with binade_bounds [OF assms] show "\<bar>r\<bar> / ulp r < 2 ^ 53"
    by (simp add: q field_simps)
qed

lemma ulp_pos [simp]: "0 < ulp r" by (simp add: ulp_def)

lemma ulp_nonzero [simp]: "ulp r \<noteq> 0" by (simp add: ulp_def)

lemma ulp_nonneg [simp]: "0 \<le> ulp r" by (simp add: ulp_def)

lemma ulp_abs [simp]: "\<bar>ulp r\<bar> = ulp r" by (simp add: ulp_def)

text \<open>Rounding errs by at most half an ulp, that is by a relative \<open>2^-53\<close>.\<close>

lemma fl_error:
  assumes "r \<noteq> 0"
  shows "\<bar>fl r - r\<bar> \<le> ulp r / 2"
proof -
  let ?n = "roundHalfEven (\<bar>r\<bar> / ulp r)"
  have "fl r - r = sgn r * (of_int ?n * ulp r - \<bar>r\<bar>)"
    using assms by (simp add: fl_def algebra_simps mult_sgn_abs abs_mult_sgn)
  then have "\<bar>fl r - r\<bar> = \<bar>of_int ?n * ulp r - \<bar>r\<bar>\<bar>"
    using assms by (simp add: abs_mult abs_sgn_eq)
  also have "of_int ?n * ulp r - \<bar>r\<bar> = (of_int ?n - \<bar>r\<bar> / ulp r) * ulp r"
    by (simp add: field_simps)
  also have "\<bar>\<dots>\<bar> = \<bar>of_int ?n - \<bar>r\<bar> / ulp r\<bar> * ulp r"
    by (simp add: abs_mult)
  also have "\<dots> \<le> (1 / 2) * ulp r"
    using roundHalfEven_error [of "\<bar>r\<bar> / ulp r"] by (intro mult_right_mono) simp_all
  finally show ?thesis by simp
qed

lemma ulp_le: "r \<noteq> 0 \<Longrightarrow> ulp r \<le> \<bar>r\<bar> / 2 ^ 52"
  using binade_bounds(1) [of r] by (simp add: ulp_def power_int_diff field_simps)

lemma fl_relative_error: "\<bar>fl r - r\<bar> \<le> \<bar>r\<bar> / 2 ^ 53"
proof (cases "r = 0")
  case True
  then show ?thesis by simp
next
  case False
  from fl_error [OF False] ulp_le [OF False] show ?thesis by simp
qed

text \<open>The magnitude of the rounded value.\<close>

lemma fl_abs:
  assumes "r \<noteq> 0"
  shows "\<bar>fl r\<bar> = of_int (roundHalfEven (\<bar>r\<bar> / ulp r)) * ulp r"
    and "2 ^ 52 \<le> roundHalfEven (\<bar>r\<bar> / ulp r)"
    and "roundHalfEven (\<bar>r\<bar> / ulp r) \<le> 2 ^ 53"
proof -
  from scaled_bounds [OF assms] have a: "of_int (2 ^ 52) \<le> \<bar>r\<bar> / ulp r"
    and b: "\<bar>r\<bar> / ulp r \<le> of_int (2 ^ 53)" by simp_all
  from a show lo: "2 ^ 52 \<le> roundHalfEven (\<bar>r\<bar> / ulp r)" by (rule roundHalfEven_ge)
  from b show "roundHalfEven (\<bar>r\<bar> / ulp r) \<le> 2 ^ 53" by (rule roundHalfEven_le)
  from lo have "0 \<le> roundHalfEven (\<bar>r\<bar> / ulp r)" by simp
  then show "\<bar>fl r\<bar> = of_int (roundHalfEven (\<bar>r\<bar> / ulp r)) * ulp r"
    using assms by (simp add: fl_def abs_mult abs_sgn_eq)
qed

text \<open>Scaling by a power of two commutes with rounding; halving is therefore exact.\<close>

lemma binade_double: "r \<noteq> 0 \<Longrightarrow> binade (2 * r) = binade r + 1"
proof -
  assume r: "r \<noteq> 0"
  have "(2::real) powi (binade r + 1) = 2 * 2 powi binade r"
    and "(2::real) powi (binade r + 1 + 1) = 2 * 2 powi (binade r + 1)"
    by (simp_all add: power_int_add)
  with binade_bounds [OF r] show ?thesis
    by (intro binade_eqI) (simp_all add: abs_mult)
qed

lemma fl_double: "fl (2 * r) = 2 * fl r"
proof (cases "r = 0")
  case True
  then show ?thesis by simp
next
  case False
  have "ulp (2 * r) = 2 * ulp r"
    by (simp add: ulp_def binade_double [OF False] power_int_add power_int_diff)
  then show ?thesis using False by (simp add: fl_def abs_mult sgn_mult)
qed

lemma fl_half: "fl (r / 2) = fl r / 2"
  using fl_double [of "r / 2"] by simp

text \<open>A value with a 53-bit significand is its own rounding, so \<open>fl\<close> is idempotent.\<close>

lemma fl_fixes_aux:
  fixes n :: int and k :: int
  assumes "2 ^ 52 \<le> n" and "n < 2 ^ 53"
  shows "fl (of_int n * 2 powi k) = of_int n * 2 powi k"
proof -
  let ?v = "real_of_int n * 2 powi k"
  have k: "(2::real) powi (k + 52) = 2 ^ 52 * 2 powi k"
    "(2::real) powi (k + 52 + 1) = 2 ^ 53 * 2 powi k"
    by (simp_all add: power_int_add)
  from assms have n: "(2::real) ^ 52 \<le> of_int n" "real_of_int n < 2 ^ 53"
    by (metis of_int_le_iff of_int_numeral of_int_power,
        metis of_int_less_iff of_int_numeral of_int_power)
  moreover have "(0::real) < 2 ^ 52" by simp
  ultimately have npos: "0 < real_of_int n" by linarith
  have av: "\<bar>?v\<bar> = of_int n * 2 powi k" using npos by (simp add: abs_mult)
  have "2 ^ 52 * 2 powi k \<le> real_of_int n * 2 powi k"
    using n(1) by (intro mult_right_mono) simp_all
  then have lo: "2 powi (k + 52) \<le> \<bar>?v\<bar>" unfolding av k .
  have "real_of_int n * 2 powi k < 2 ^ 53 * 2 powi k"
    using n(2) by (intro mult_strict_right_mono) simp_all
  then have hi: "\<bar>?v\<bar> < 2 powi (k + 52 + 1)" unfolding av k .
  from lo hi have "fl ?v = sgn ?v * (of_int (roundHalfEven (\<bar>?v\<bar> / 2 powi (k + 52 - 52)))
      * 2 powi (k + 52 - 52))"
    by (rule fl_eval)
  moreover have "\<bar>?v\<bar> / 2 powi k = of_int n" using npos by (simp add: abs_mult)
  moreover have "sgn ?v = 1" using npos by (simp add: sgn_mult)
  ultimately show ?thesis by simp
qed

lemma fl_fixes:
  fixes n :: int and k :: int
  assumes "2 ^ 52 \<le> n" and "n \<le> 2 ^ 53"
  shows "fl (of_int n * 2 powi k) = of_int n * 2 powi k"
proof (cases "n = 2 ^ 53")
  case False
  with assms have "n < 2 ^ 53" by simp
  with assms(1) show ?thesis by (rule fl_fixes_aux)
next
  case True
  have "real_of_int n * 2 powi k = of_int (2 ^ 52) * 2 powi (k + 1)"
    by (simp add: True power_int_add)
  moreover have "fl (of_int (2 ^ 52) * 2 powi (k + 1)) = of_int (2 ^ 52) * 2 powi (k + 1)"
    by (rule fl_fixes_aux) simp_all
  ultimately show ?thesis by simp
qed

lemma fl_idem [simp]: "fl (fl r) = fl r"
proof (cases "r = 0")
  case True
  then show ?thesis by simp
next
  case False
  let ?n = "roundHalfEven (\<bar>r\<bar> / ulp r)"
  note n = fl_abs [OF False]
  have v: "fl (of_int ?n * ulp r) = of_int ?n * ulp r"
    using fl_fixes [OF n(2,3), of "binade r - 52"] by (simp add: ulp_def)
  have "sgn r = 1 \<or> sgn r = - 1" using False by (simp add: sgn_if)
  then show ?thesis
    using False v by (auto simp: fl_def [of r] fl_minus)
qed

lemma fl_error_rounded:
  "\<bar>fl r - r\<bar> \<le> \<bar>fl r\<bar> / 2 ^ 53"
proof (cases "r = 0")
  case True
  then show ?thesis by simp
next
  case False
  note n = fl_abs [OF False]
  from n(2) have "(2::real) ^ 52 \<le> of_int (roundHalfEven (\<bar>r\<bar> / ulp r))"
    by (metis of_int_le_iff of_int_numeral of_int_power)
  then have "2 ^ 52 * ulp r \<le> \<bar>fl r\<bar>"
    unfolding n(1) by (intro mult_right_mono) simp_all
  with fl_error [OF False] show ?thesis by simp
qed

text \<open>Integers of magnitude up to \<open>2^53\<close> are exact.\<close>

lemma fl_pow2_mult: "fl (2 ^ j * r) = 2 ^ j * fl r"
proof (induction j)
  case 0
  show ?case by simp
next
  case (Suc j)
  have "fl (2 ^ Suc j * r) = fl (2 * (2 ^ j * r))" by (simp add: mult.assoc)
  also have "\<dots> = 2 * fl (2 ^ j * r)" by (rule fl_double)
  finally show ?case by (simp add: Suc.IH)
qed

lemma pow2_scale:
  fixes z :: int
  shows "1 \<le> z \<Longrightarrow> z < 2 ^ Suc m \<Longrightarrow> \<exists>j. 2 ^ m \<le> z * 2 ^ j \<and> z * 2 ^ j < 2 ^ Suc m"
proof (induction m)
  case 0
  then have "z = 1" by simp
  then show ?case by (intro exI [of _ 0]) simp
next
  case (Suc m)
  show ?case
  proof (cases "z < 2 ^ Suc m")
    case True
    from Suc.IH [OF Suc.prems(1) True] obtain j where
      "2 ^ m \<le> z * 2 ^ j" "z * 2 ^ j < 2 ^ Suc m" by blast
    then have "2 ^ Suc m \<le> z * 2 ^ Suc j \<and> z * 2 ^ Suc j < 2 ^ Suc (Suc m)" by simp
    then show ?thesis by blast
  next
    case False
    with Suc.prems(2) show ?thesis by (intro exI [of _ 0]) simp
  qed
qed

lemma fl_of_int_pos:
  fixes z :: int
  assumes "1 \<le> z" and "z \<le> 2 ^ 53"
  shows "fl (of_int z) = of_int z"
proof (cases "z = 2 ^ 53")
  case True
  from fl_fixes [of "2 ^ 53" 0] show ?thesis by (simp add: True)
next
  case False
  with assms(2) have "z < 2 ^ Suc 52" by simp
  from pow2_scale [OF assms(1) this] obtain j where
    j: "2 ^ 52 \<le> z * 2 ^ j" "z * 2 ^ j < 2 ^ 53" by auto
  then have "fl (of_int (z * 2 ^ j) * 2 powi 0) = of_int (z * 2 ^ j) * 2 powi 0"
    by (intro fl_fixes) simp_all
  then have "fl (2 ^ j * of_int z) = 2 ^ j * of_int z" by (simp add: mult.commute)
  then show ?thesis by (simp add: fl_pow2_mult)
qed

lemma fl_of_int:
  assumes "\<bar>z\<bar> \<le> 2 ^ 53"
  shows "fl (of_int z) = of_int z"
proof -
  consider "z = 0" | "1 \<le> z" | "1 \<le> - z" by linarith
  then show ?thesis
  proof cases
    case 1
    then show ?thesis by simp
  next
    case 2
    with assms show ?thesis by (intro fl_of_int_pos) simp_all
  next
    case 3
    with assms have "fl (of_int (- z)) = of_int (- z)" by (intro fl_of_int_pos) simp_all
    then show ?thesis by (simp add: fl_minus)
  qed
qed

lemma fl_of_nat: "n \<le> 2 ^ 53 \<Longrightarrow> fl (real n) = real n"
  using fl_of_int [of "int n"] by simp

text \<open>Evaluating \<open>fl\<close> at a positive number whose binade is known.\<close>

lemma fl_eqI:
  assumes "2 powi e \<le> r" and "r < 2 powi (e + 1)"
    and "roundHalfEven (r / 2 powi (e - 52)) = n"
    and "y = of_int n * 2 powi (e - 52)"
  shows "fl r = y"
proof -
  have "0 < (2::real) powi e" by simp
  from this assms(1) have pos: "0 < r" by (rule less_le_trans)
  then have "\<bar>r\<bar> = r" "sgn r = 1" by simp_all
  with fl_eval [of e r] assms show ?thesis by simp
qed

lemma fl_numeral [simp]: "(numeral k :: int) \<le> 2 ^ 53 \<Longrightarrow> fl (numeral k) = numeral k"
  using fl_of_int [of "numeral k"] by simp

lemma fl_1 [simp]: "fl 1 = 1"
  using fl_of_int [of 1] by simp

lemma div64_fl_2: "div64 (fl r) 2 = fl r / 2"
  by (simp add: div64_def fl_half)

lemma roundingError_bound: "\<bar>roundingError r\<bar> \<le> \<bar>fl r\<bar> / 2 ^ 53"
  unfolding roundingError_def by (rule fl_error_rounded)

subsection \<open>Basic facts about the loop\<close>

lemma breakStep_provider:
  "breakStep (provider measureText) fontSize maxWidth (lines, currentLine) char =
     Inr (if measureText (currentLine @ [char]) fontSize > maxWidth \<and> currentLine \<noteq> []
          then (lines @ [currentLine], [char])
          else (lines, currentLine @ [char]))"
  by (simp add: breakStep_def provider_def Let_def)

lemma breakStep_concat:
  assumes "breakStep font fontSize maxWidth (lines, currentLine) char = Inr (lines', currentLine')"
  shows "concat lines' @ currentLine' = concat lines @ currentLine @ [char]"
  using assms
  by (auto simp: breakStep_def Let_def split: sum.splits if_splits)

lemma breakLoop_concat:
  "breakLoop font fontSize maxWidth text (lines, currentLine) = Inr (lines', currentLine')
   \<Longrightarrow> concat lines' @ currentLine' = concat lines @ currentLine @ text"
proof (induction "text" arbitrary: lines currentLine)
  case Nil
  then show ?case by simp
next
  case (Cons char rest)
  from Cons.prems obtain l c where
    step: "breakStep font fontSize maxWidth (lines, currentLine) char = Inr (l, c)" and
    rest: "breakLoop font fontSize maxWidth rest (l, c) = Inr (lines', currentLine')"
    by (auto split: sum.splits)
  from Cons.IH [OF rest] breakStep_concat [OF step] show ?case by simp
qed

lemma breakLoop_provider_returns:
  "\<exists>st'. breakLoop (provider measureText) fontSize maxWidth text st = Inr st'"
proof (induction "text" arbitrary: st)
  case Nil
  show ?case by simp
next
  case (Cons char rest)
  obtain lines currentLine where st: "st = (lines, currentLine)" by (cases st)
  show ?case using Cons.IH by (simp add: st breakStep_provider)
qed

lemma breakTextIntoLines_concat:
  assumes "breakTextIntoLines text font fontSize maxWidth = Inr lines"
  shows "concat lines = text"
proof -
  from assms obtain l c where
    loop: "breakLoop font fontSize maxWidth text ([], []) = Inr (l, c)" and
    lines: "lines = (if length c > 0 then l @ [c] else l)"
    by (auto simp: breakTextIntoLines_def split: sum.splits prod.splits)
  from breakLoop_concat [OF loop] have "concat l @ c = text" by simp
  with lines show ?thesis by (cases c) auto
qed

lemma breakTextIntoLines_provider_returns:
  "\<exists>lines. breakTextIntoLines text (provider measureText :: 'c font) fontSize maxWidth
     = Inr lines"
proof -
  obtain st' where
    "breakLoop (provider measureText :: 'c font) fontSize maxWidth text ([], []) = Inr st'"
    using breakLoop_provider_returns by blast
  then show ?thesis by (cases st') (simp add: breakTextIntoLines_def)
qed

lemma breakStep_nonempty:
  assumes "breakStep font fontSize maxWidth (lines, currentLine) char = Inr (lines', currentLine')"
    and "[] \<notin> set lines"
  shows "[] \<notin> set lines' \<and> currentLine' \<noteq> []"
  using assms
  by (auto simp: breakStep_def Let_def split: sum.splits if_splits)

lemma breakLoop_nonempty:
  "breakLoop font fontSize maxWidth text (lines, currentLine) = Inr (lines', currentLine')
   \<Longrightarrow> [] \<notin> set lines
   \<Longrightarrow> [] \<notin> set lines' \<and> (text \<noteq> [] \<or> currentLine \<noteq> [] \<longrightarrow> currentLine' \<noteq> [])"
proof (induction "text" arbitrary: lines currentLine)
  case Nil
  then show ?case by simp
next
  case (Cons char rest)
  from Cons.prems(1) obtain l c where
    step: "breakStep font fontSize maxWidth (lines, currentLine) char = Inr (l, c)" and
    rest: "breakLoop font fontSize maxWidth rest (l, c) = Inr (lines', currentLine')"
    by (auto split: sum.splits)
  from breakStep_nonempty [OF step Cons.prems(2)] have l: "[] \<notin> set l" and c: "c \<noteq> []"
    by simp_all
  from Cons.IH [OF rest l] c show ?case by simp
qed

lemma breakTextIntoLines_nonempty:
  assumes "breakTextIntoLines text font fontSize maxWidth = Inr lines"
  shows "[] \<notin> set lines \<and> (text \<noteq> [] \<longrightarrow> lines \<noteq> [])"
proof -
  from assms obtain l c where
    loop: "breakLoop font fontSize maxWidth text ([], []) = Inr (l, c)" and
    lines: "lines = (if length c > 0 then l @ [c] else l)"
    by (auto simp: breakTextIntoLines_def split: sum.splits prod.splits)
  from breakLoop_nonempty [OF loop] have "[] \<notin> set l" and "text \<noteq> [] \<longrightarrow> c \<noteq> []"
    by simp_all
  with lines show ?thesis by auto
qed

lemma length_le_concat:
  "[] \<notin> set xss \<Longrightarrow> length xss \<le> length (concat xss)"
proof (induction xss)
  case Nil
  show ?case by simp
next
  case (Cons xs xss)
  then have "xs \<noteq> []" and "length xss \<le> length (concat xss)" by auto
  then show ?case by (cases xs) simp_all
qed

lemma breakTextIntoLines_provider_facts:
  "\<exists>lines. breakTextIntoLines text (provider measureText :: 'c font) fontSize maxWidth
       = Inr lines
     \<and> concat lines = text \<and> [] \<notin> set lines \<and> (text \<noteq> [] \<longrightarrow> lines \<noteq> [])
     \<and> length lines \<le> length text"
proof -
  obtain lines where
    r: "breakTextIntoLines text (provider measureText :: 'c font) fontSize maxWidth
          = Inr lines"
    using breakTextIntoLines_provider_returns by blast
  from breakTextIntoLines_concat [OF r] have c: "concat lines = text" .
  from breakTextIntoLines_nonempty [OF r]
  have n: "[] \<notin> set lines" and e: "text \<noteq> [] \<longrightarrow> lines \<noteq> []"
    by simp_all
  from length_le_concat [OF n] c have "length lines \<le> length text" by simp
  with r c n e show ?thesis by blast
qed

text \<open>A failure of the function is always a failure of the metrics provider.\<close>

lemma breakStep_failure:
  "breakStep font fontSize maxWidth st char = Inl err \<Longrightarrow> \<exists>s. font s fontSize = Inl err"
  by (auto simp: breakStep_def Let_def split: prod.splits sum.splits if_splits)

lemma breakLoop_failure:
  "breakLoop font fontSize maxWidth text st = Inl err \<Longrightarrow> \<exists>s. font s fontSize = Inl err"
proof (induction "text" arbitrary: st)
  case Nil
  then show ?case by simp
next
  case (Cons char rest)
  then show ?case by (auto split: sum.splits dest: breakStep_failure)
qed

lemma breakTextIntoLines_failure:
  "breakTextIntoLines text font fontSize maxWidth = Inl err \<Longrightarrow> \<exists>s. font s fontSize = Inl err"
  by (auto simp: breakTextIntoLines_def split: sum.splits prod.splits dest: breakLoop_failure)

text \<open>
  With \<open>maxWidth \<le> 0\<close> and positive widths every step after the first starts a new line.
\<close>

lemma breakLoop_every_unit:
  assumes "maxWidth \<le> 0" and "positiveWidths measureText fontSize"
  shows "breakLoop (provider measureText) fontSize maxWidth rest (lines, [c]) =
           Inr (lines @ map (\<lambda>x. [x]) (butlast (c # rest)), [last (c # rest)])"
proof (induction rest arbitrary: lines c)
  case Nil
  show ?case by simp
next
  case (Cons d rest)
  from assms have "maxWidth < measureText [c, d] fontSize"
    unfolding positiveWidths_def by (meson list.discI order_le_less_trans)
  then show ?case using Cons.IH [of "lines @ [[c]]" d]
    by (simp add: breakStep_provider)
qed

lemma breakTextIntoLines_every_unit:
  assumes "maxWidth \<le> 0" and "positiveWidths measureText fontSize"
  shows "breakTextIntoLines text (provider measureText) fontSize maxWidth =
           Inr (map (\<lambda>x. [x]) text)"
proof (cases "text")
  case Nil
  then show ?thesis by (simp add: breakTextIntoLines_def)
next
  case (Cons c rest)
  have "map (\<lambda>x. [x]) (butlast (c # rest)) @ [[last (c # rest)]] = map (\<lambda>x. [x]) (c # rest)"
    by (induction rest arbitrary: c) simp_all
  then show ?thesis
    using breakLoop_every_unit [OF assms, of rest "[]" c]
    by (simp add: Cons breakTextIntoLines_def breakStep_provider)
qed

lemma breakLoop_current_nonempty:
  "breakLoop font fontSize maxWidth text (lines, currentLine) = Inr (lines', currentLine')
   \<Longrightarrow> text \<noteq> [] \<or> currentLine \<noteq> [] \<Longrightarrow> currentLine' \<noteq> []"
proof (induction "text" arbitrary: lines currentLine)
  case Nil
  then show ?case by simp
next
  case (Cons char rest)
  from Cons.prems(1) obtain l c where
    step: "breakStep font fontSize maxWidth (lines, currentLine) char = Inr (l, c)" and
    rest: "breakLoop font fontSize maxWidth rest (l, c) = Inr (lines', currentLine')"
    by (auto split: sum.splits)
  from step have "c \<noteq> []"
    by (auto simp: breakStep_def Let_def split: sum.splits if_splits)
  with Cons.IH [OF rest] show ?case by simp
qed

lemma breakLoop_append:
  "breakLoop font fontSize maxWidth (xs @ ys) st =
     (case breakLoop font fontSize maxWidth xs st of
        Inl err \<Rightarrow> Inl err
      | Inr st' \<Rightarrow> breakLoop font fontSize maxWidth ys st')"
  by (induction xs arbitrary: st) (auto split: sum.splits)

lemma breakLoop_extends:
  "breakLoop font fontSize maxWidth text (lines, currentLine) = Inr (lines', currentLine')
   \<Longrightarrow> \<exists>more. lines' = lines @ more \<and> concat more @ currentLine' = currentLine @ text"
proof (induction "text" arbitrary: lines currentLine)
  case Nil
  then show ?case by simp
next
  case (Cons char rest)
  from Cons.prems obtain l c where
    step: "breakStep font fontSize maxWidth (lines, currentLine) char = Inr (l, c)" and
    rest: "breakLoop font fontSize maxWidth rest (l, c) = Inr (lines', currentLine')"
    by (auto split: sum.splits)
  from Cons.IH [OF rest] obtain more where
    more: "lines' = l @ more" "concat more @ currentLine' = c @ rest"
    by blast
  from step have
    "(l = lines @ [currentLine] \<and> c = [char]) \<or> (l = lines \<and> c = currentLine @ [char])"
    by (auto simp: breakStep_def Let_def split: sum.splits if_splits)
  then show ?case
  proof
    assume "l = lines @ [currentLine] \<and> c = [char]"
    with more have "lines' = lines @ (currentLine # more)"
      and "concat (currentLine # more) @ currentLine' = currentLine @ char # rest"
      by simp_all
    then show ?thesis by blast
  next
    assume "l = lines \<and> c = currentLine @ [char]"
    with more show ?thesis by auto
  qed
qed

text \<open>
  Two runs on the same code units with \<open>maxWidth1 \<le> maxWidth2\<close>: the run with the larger
  limit has pushed fewer lines, or as many and its current line is a tail of the other
  run's current line.
\<close>

lemma breakStep_ahead:
  assumes sm: "suffixMonotone measureText fontSize" and le: "maxWidth1 \<le> maxWidth2"
    and s1: "breakStep (provider measureText) fontSize maxWidth1 (l1, c1) char = Inr (l1', c1')"
    and s2: "breakStep (provider measureText) fontSize maxWidth2 (l2, c2) char = Inr (l2', c2')"
    and inv: "length l2 < length l1 \<or> (length l2 = length l1 \<and> (\<exists>p. c1 = p @ c2))"
  shows "length l2' < length l1' \<or> (length l2' = length l1' \<and> (\<exists>p. c1' = p @ c2'))"
proof -
  have key: "maxWidth1 < measureText (p @ c2 @ [char]) fontSize"
    if "maxWidth2 < measureText (c2 @ [char]) fontSize" for p
  proof -
    from sm have "measureText (c2 @ [char]) fontSize \<le> measureText (p @ (c2 @ [char])) fontSize"
      unfolding suffixMonotone_def by blast
    with that le show ?thesis by simp
  qed
  from inv show ?thesis
  proof
    assume "length l2 < length l1"
    with s1 s2 show ?thesis
      by (auto simp: breakStep_provider split: if_splits)
  next
    assume "length l2 = length l1 \<and> (\<exists>p. c1 = p @ c2)"
    then obtain p where len: "length l2 = length l1" and p: "c1 = p @ c2" by blast
    show ?thesis
    proof (cases "maxWidth2 < measureText (c2 @ [char]) fontSize \<and> c2 \<noteq> []")
      case True
      with key [of p] p have "maxWidth1 < measureText (c1 @ [char]) fontSize \<and> c1 \<noteq> []"
        by simp
      with True s1 s2 len show ?thesis by (auto simp: breakStep_provider)
    next
      case False
      with s1 s2 len p show ?thesis
        by (auto simp: breakStep_provider split: if_splits)
    qed
  qed
qed

lemma breakLoop_ahead:
  assumes sm: "suffixMonotone measureText fontSize" and le: "maxWidth1 \<le> maxWidth2"
  shows "breakLoop (provider measureText) fontSize maxWidth1 text (l1, c1) = Inr (l1', c1')
    \<Longrightarrow> breakLoop (provider measureText) fontSize maxWidth2 text (l2, c2) = Inr (l2', c2')
    \<Longrightarrow> length l2 < length l1 \<or> (length l2 = length l1 \<and> (\<exists>p. c1 = p @ c2))
    \<Longrightarrow> length l2' < length l1' \<or> (length l2' = length l1' \<and> (\<exists>p. c1' = p @ c2'))"
proof (induction "text" arbitrary: l1 c1 l2 c2)
  case Nil
  then show ?case by simp
next
  case (Cons char rest)
  from Cons.prems(1) obtain a1 b1 where
    s1: "breakStep (provider measureText) fontSize maxWidth1 (l1, c1) char = Inr (a1, b1)" and
    r1: "breakLoop (provider measureText) fontSize maxWidth1 rest (a1, b1) = Inr (l1', c1')"
    by (auto split: sum.splits)
  from Cons.prems(2) obtain a2 b2 where
    s2: "breakStep (provider measureText) fontSize maxWidth2 (l2, c2) char = Inr (a2, b2)" and
    r2: "breakLoop (provider measureText) fontSize maxWidth2 rest (a2, b2) = Inr (l2', c2')"
    by (auto split: sum.splits)
  from breakStep_ahead [OF sm le s1 s2 Cons.prems(3)]
  have "length a2 < length a1 \<or> (length a2 = length a1 \<and> (\<exists>p. b1 = p @ b2))" .
  from Cons.IH [OF r1 r2 this] show ?case .
qed

text \<open>The width function \<open>leadFont\<close> meets the specification's precondition.\<close>

lemma leadFont_prefixMonotone: "prefixMonotone leadFont 1"
  unfolding prefixMonotone_def
proof (intro allI)
  fix s c
  have "0 \<le> leadWidth x" for x by (simp add: leadWidth_def)
  then show "leadFont s 1 \<le> leadFont (s @ [c]) 1"
    by (cases s) (simp_all add: leadFont_def mult_right_mono)
qed

subsection \<open>Basic facts about the positioning\<close>

lemma forEachLine_provider:
  "forEachLine (provider measureText) fontSize width sY lh index lines page =
     Inr (page @ map (placed measureText fontSize width sY lh) (enumerate index lines))"
  by (induction lines arbitrary: index page) (simp_all add: provider_def placed_def)

lemma positionLines_provider:
  "positionLines cfg (provider measureText) width height lines =
     Inr (map (placed measureText (cfg_fontSize cfg) width
                 (startY cfg height (length lines)) (lineHeight cfg))
            (enumerate 0 lines))"
  by (simp add: positionLines_def forEachLine_provider)

lemma map_text_placed:
  "map dt_text (map (placed measureText fontSize width sY lh) (enumerate index lines)) = lines"
  by (simp add: placed_def comp_def enumerate_eq_zip)

lemma placed_x:
  "dt_x (placed measureText fontSize width sY lh (i, line)) + measureText line fontSize / 2
     - width / 2 = roundingError (width - measureText line fontSize) / 2"
  by (simp add: placed_def sub64_def div64_fl_2 roundingError_def field_simps)

lemma four_errors_bound:
  fixes a b d e c :: real
  assumes "\<bar>a\<bar> \<le> X / c" and "\<bar>b\<bar> \<le> Y / c" and "\<bar>d\<bar> \<le> Z / c" and "\<bar>e\<bar> \<le> W / c"
  shows "\<bar>a / 2 + b + d + e / 2\<bar> \<le> (X / 2 + Y + Z + W / 2) / c"
proof -
  have "\<bar>a / 2 + b + d + e / 2\<bar> \<le> \<bar>a\<bar> / 2 + \<bar>b\<bar> + \<bar>d\<bar> + \<bar>e\<bar> / 2" by linarith
  also have "\<dots> \<le> (X / c) / 2 + Y / c + Z / c + (W / c) / 2"
  proof -
    from assms(1,4) have "\<bar>a\<bar> / 2 \<le> (X / c) / 2" and "\<bar>e\<bar> / 2 \<le> (W / c) / 2" by simp_all
    with assms(2,3) show ?thesis by (intro add_mono)
  qed
  also have "\<dots> = (X / 2 + Y + Z + W / 2) / c" by (simp add: add_divide_distrib)
  finally show ?thesis .
qed

text \<open>The values of the examples: each rounding is evaluated in its binade.\<close>

lemma CONFIG_fields:
  "cfg_fontSize CONFIG = 120" "cfg_topMargin CONFIG = 180" "cfg_lineHeight CONFIG = fl (7 / 5)"
  by (simp_all add: CONFIG_def)

lemma lineHeight_literal: "fl (7 / 5) = 3152519739159347 / 2251799813685248"
  by (rule fl_eqI [where e = 0 and n = 6305039478318694])
     (simp_all add: roundHalfEven_def Let_def power_int_minus)

lemma lineHeight_CONFIG: "lineHeight CONFIG = 168"
proof -
  have a: "fl (47287796087390205 / 281474976710656) = 168"
    by (rule fl_eqI [where e = 7 and n = 5910974510923776])
       (simp_all add: roundHalfEven_def Let_def power_int_minus)
  show ?thesis by (simp add: lineHeight_def CONFIG_def mul64_def lineHeight_literal a)
qed

lemma A4_long: "fl (84189 / 100) = 7405342754466693 / 8796093022208"
  by (rule fl_eqI [where e = 9 and n = 7405342754466693])
     (simp_all add: roundHalfEven_def Let_def power_int_minus)

lemma sansFont_aa: "sansFont ''aa'' 120 = 2347501305766871 / 17592186044416"
proof -
  have a: "fl (3336 / 25) = 2347501305766871 / 17592186044416"
    by (rule fl_eqI [where e = 7 and n = 4695002611533742])
       (simp_all add: roundHalfEven_def Let_def power_int_minus)
  show ?thesis by (simp add: sansFont_def a)
qed

lemma C5_x:
  "div64 (sub64 (7405342754466693 / 8796093022208) (2347501305766871 / 17592186044416)) 2
     = 3115796050791629 / 8796093022208"
proof -
  have a: "fl (12463184203166515 / 17592186044416) = 3115796050791629 / 4398046511104"
    by (rule fl_eqI [where e = 9 and n = 6231592101583258])
       (simp_all add: roundHalfEven_def Let_def power_int_minus)
  have b: "fl (3115796050791629 / 8796093022208) = 3115796050791629 / 8796093022208"
    by (rule fl_eqI [where e = 8 and n = 6231592101583258])
       (simp_all add: roundHalfEven_def Let_def power_int_minus)
  show ?thesis by (simp add: div64_def sub64_def a b)
qed

lemma targetCenterY_A4:
  "targetCenterY CONFIG (7405342754466693 / 8796093022208) = 5294280429136773 / 8796093022208"
proof -
  have a: "fl (5822046010469253 / 8796093022208) = 5822046010469253 / 8796093022208"
    by (rule fl_eqI [where e = 9 and n = 5822046010469253])
       (simp_all add: roundHalfEven_def Let_def power_int_minus)
  have b: "fl (5294280429136773 / 8796093022208) = 5294280429136773 / 8796093022208"
    by (rule fl_eqI [where e = 9 and n = 5294280429136773])
       (simp_all add: roundHalfEven_def Let_def power_int_minus)
  show ?thesis
    by (simp add: targetCenterY_def CONFIG_fields sub64_def div64_def a b)
qed

lemma totalTextHeight_6: "real n = 6 \<Longrightarrow> totalTextHeight CONFIG n = 960"
  by (simp add: totalTextHeight_def lineHeight_CONFIG add64_def mul64_def sub64_def CONFIG_fields)

lemma startY_A4_6:
  assumes "real n = 6"
  shows "startY CONFIG (7405342754466693 / 8796093022208) n = 2115218479282913 / 2199023255552"
proof -
  have c: "fl (9516405079796613 / 8796093022208) = 2379101269949153 / 2199023255552"
    by (rule fl_eqI [where e = 10 and n = 4758202539898306])
       (simp_all add: roundHalfEven_def Let_def power_int_minus)
  have d: "fl (2115218479282913 / 2199023255552) = 2115218479282913 / 2199023255552"
    by (rule fl_eqI [where e = 9 and n = 8460873917131652])
       (simp_all add: roundHalfEven_def Let_def power_int_minus)
  show ?thesis
    by (simp add: startY_def totalTextHeight_6 [OF assms] targetCenterY_A4 add64_def sub64_def
        div64_def CONFIG_fields c d)
qed

lemma lastLineY_A4_6:
  "sub64 (2115218479282913 / 2199023255552) (mul64 5 168) = 268038944619233 / 2199023255552"
  "sub64 (2115218479282913 / 2199023255552) (mul64 0 168) = 2115218479282913 / 2199023255552"
proof -
  have d: "fl (2115218479282913 / 2199023255552) = 2115218479282913 / 2199023255552"
    by (rule fl_eqI [where e = 9 and n = 8460873917131652])
       (simp_all add: roundHalfEven_def Let_def power_int_minus)
  have e: "fl (268038944619233 / 2199023255552) = 268038944619233 / 2199023255552"
    by (rule fl_eqI [where e = 6 and n = 8577246227815456])
       (simp_all add: roundHalfEven_def Let_def power_int_minus)
  show "sub64 (2115218479282913 / 2199023255552) (mul64 5 168) = 268038944619233 / 2199023255552"
    by (simp add: sub64_def mul64_def e)
  show "sub64 (2115218479282913 / 2199023255552) (mul64 0 168) = 2115218479282913 / 2199023255552"
    by (simp add: sub64_def mul64_def d)
qed

lemma targetCenterY_800: "targetCenterY CONFIG 800 = 560"
  by (simp add: targetCenterY_def CONFIG_fields sub64_def div64_def)

lemma startY_800:
  "real n = 2 \<Longrightarrow> startY CONFIG 800 n = 584"
  "real n = 1 \<Longrightarrow> startY CONFIG 800 n = 500"
  by (simp_all add: startY_def totalTextHeight_def targetCenterY_800 lineHeight_CONFIG
      CONFIG_fields add64_def sub64_def mul64_def div64_def)

subsection \<open>Claims about \<open>breakTextIntoLines\<close>\<close>

text \<open>
  C1. For every input string \<open>text\<close> (the empty one included), every width function
  \<open>measureText\<close>, every \<open>fontSize\<close> and every \<open>maxWidth\<close>, the call returns a list of lines,
  and joining the lines in order gives back \<open>text\<close> exactly.
\<close>

theorem C1_concatenation:
  "\<exists>lines. breakTextIntoLines text (provider measureText) fontSize maxWidth = Inr lines
     \<and> concat lines = text"
  using breakTextIntoLines_provider_returns [of "text" measureText fontSize maxWidth]
    breakTextIntoLines_concat by blast

theorem C1_concatenation_witness:
  "\<exists>lines. breakTextIntoLines ''abcd'' (provider monoFont) 10 25 = Inr lines
     \<and> concat lines = ''abcd''"
  using C1_concatenation [of "''abcd''" monoFont 10 25] by simp

text \<open>
  C2. For every non-empty input string the call returns at least one line, and no
  returned line is the empty string.
\<close>

theorem C2_nonempty_lines:
  assumes "text \<noteq> []"
  shows "\<exists>lines. breakTextIntoLines text (provider measureText) fontSize maxWidth = Inr lines
           \<and> length lines \<ge> 1 \<and> [] \<notin> set lines"
proof -
  from breakTextIntoLines_provider_facts [of "text" measureText fontSize maxWidth] assms
  obtain lines where
    "breakTextIntoLines text (provider measureText) fontSize maxWidth = Inr lines"
    "lines \<noteq> []" "[] \<notin> set lines"
    by blast
  moreover from this have "length lines \<ge> 1" by (cases lines) simp_all
  ultimately show ?thesis by blast
qed

theorem C2_nonempty_lines_witness:
  "''abcd'' \<noteq> [] \<and>
   (\<exists>lines. breakTextIntoLines ''abcd'' (provider monoFont) 10 25 = Inr lines
      \<and> length lines \<ge> 1 \<and> [] \<notin> set lines)"
  using C2_nonempty_lines [of "''abcd''" monoFont 10 25] by simp

text \<open>
  C3 (as the specification states it: with a width function that is monotonic under
  prefix extension, a character whose own width exceeds \<open>maxWidth\<close> is alone on its line
  and is never split). Two inputs refute it.
  \<^item> \<open>leadFont\<close> is monotonic under prefix extension and \<open>c\<close> alone measures 10, over the
    limit 5, but the run \<open>ac\<close> measures 4: the loop keeps \<open>c\<close> on the line of \<open>a\<close>.
  \<^item> The character U+20BB7 is the two code units 55362, 57271. With \<open>monoFont\<close> at size
    120 (monotonic under extension at either end) it measures 240, over the limit 150;
    the loop reads \<open>text[i]\<close> and puts its two halves on two lines.
\<close>

theorem C3_wide_unit_counterexample:
  "prefixMonotone leadFont 1 \<and> 5 < leadFont ''c'' 1 \<and>
   breakTextIntoLines ''ac'' (provider leadFont) 1 5 = Inr [''ac''] \<and>
   ''c'' \<notin> set [''ac''] \<and>
   prefixMonotone (monoFont :: nat list \<Rightarrow> real \<Rightarrow> real) 120 \<and>
   suffixMonotone (monoFont :: nat list \<Rightarrow> real \<Rightarrow> real) 120 \<and>
   utf16 134071 = [55362, 57271] \<and> 150 < monoFont (utf16 134071) 120 \<and>
   breakTextIntoLines ([97] @ utf16 134071 @ [98]) (provider monoFont) 120 150
     = Inr [[97], [55362], [57271], [98]] \<and>
   utf16 134071 \<notin> set [[97], [55362], [57271], [98]]"
proof -
  have u: "utf16 134071 = [55362, 57271]" by (simp add: utf16_def)
  have m: "prefixMonotone (monoFont :: nat list \<Rightarrow> real \<Rightarrow> real) 120"
    "suffixMonotone (monoFont :: nat list \<Rightarrow> real \<Rightarrow> real) 120"
    by (simp_all add: prefixMonotone_def suffixMonotone_def monoFont_def)
  have a: "breakTextIntoLines ''ac'' (provider leadFont) 1 5 = Inr [''ac'']"
    "5 < leadFont ''c'' 1"
    by (simp_all add: breakTextIntoLines_def breakStep_provider leadFont_def leadWidth_def)
  have b: "breakTextIntoLines [97, 55362, 57271, 98 :: nat] (provider monoFont) 120 150
             = Inr [[97], [55362], [57271], [98]]"
    by (simp add: breakTextIntoLines_def breakStep_provider monoFont_def)
  from leadFont_prefixMonotone m a b show ?thesis by (simp add: u monoFont_def)
qed

text \<open>
  C3 (amended). If the width function is monotonic under prefix extension and removing
  leading code units never makes a string wider, then every character of the input that
  is a single code unit and whose own width exceeds \<open>maxWidth\<close> is alone on its output
  line and is not split: the lines before it spell the text before it, the lines after
  it spell the text after it, and the call returns.
\<close>

theorem C3_wide_unit_alone:
  assumes pm: "prefixMonotone measureText fontSize"
    and sm: "suffixMonotone measureText fontSize"
    and wide: "maxWidth < measureText [c] fontSize"
  shows "\<exists>before after.
           breakTextIntoLines (pre @ [c] @ post) (provider measureText) fontSize maxWidth
             = Inr (before @ [[c]] @ after)
         \<and> concat before = pre \<and> concat after = post"
proof -
  let ?loop = "breakLoop (provider measureText) fontSize maxWidth"
  let ?step = "breakStep (provider measureText) fontSize maxWidth"
  \<comment> \<open>the code units before \<open>c\<close>\<close>
  obtain l0 c0 where r0: "?loop pre ([], []) = Inr (l0, c0)"
    using breakLoop_provider_returns by (metis surj_pair)
  from breakLoop_concat [OF r0] have pre: "concat l0 @ c0 = pre" by simp
  \<comment> \<open>the step that reads \<open>c\<close>\<close>
  have "\<exists>before. ?step (l0, c0) c = Inr (before, [c]) \<and> concat before = pre"
  proof (cases "c0 = []")
    case True
    with pre show ?thesis by (simp add: breakStep_provider)
  next
    case False
    from sm have "measureText [c] fontSize \<le> measureText (c0 @ [c]) fontSize"
      unfolding suffixMonotone_def by blast
    with wide have "maxWidth < measureText (c0 @ [c]) fontSize" by simp
    with False pre show ?thesis by (simp add: breakStep_provider)
  qed
  then obtain before where
    sc: "?step (l0, c0) c = Inr (before, [c])" and before: "concat before = pre"
    by blast
  \<comment> \<open>the code units after \<open>c\<close>\<close>
  have "\<exists>l' c'. ?loop post (before, [c]) = Inr (l', c')
          \<and> (\<exists>after. (if length c' > 0 then l' @ [c'] else l') = before @ [[c]] @ after
                \<and> concat after = post)"
  proof (cases post)
    case Nil
    then show ?thesis by simp
  next
    case (Cons d rest)
    from pm have "measureText [c] fontSize \<le> measureText ([c] @ [d]) fontSize"
      unfolding prefixMonotone_def by blast
    with wide have sd: "?step (before, [c]) d = Inr (before @ [[c]], [d])"
      by (simp add: breakStep_provider)
    obtain l' c' where r: "?loop rest (before @ [[c]], [d]) = Inr (l', c')"
      using breakLoop_provider_returns by (metis surj_pair)
    from breakLoop_extends [OF r] obtain more where
      more: "l' = (before @ [[c]]) @ more" "concat more @ c' = [d] @ rest"
      by blast
    from breakLoop_current_nonempty [OF r] have "c' \<noteq> []" by simp
    with more have "(if length c' > 0 then l' @ [c'] else l') = before @ [[c]] @ (more @ [c'])"
      and "concat (more @ [c']) = post"
      by (simp_all add: Cons)
    with r sd show ?thesis by (simp add: Cons)
  qed
  then obtain l' c' after where
    r: "?loop post (before, [c]) = Inr (l', c')" and
    fin: "(if length c' > 0 then l' @ [c'] else l') = before @ [[c]] @ after" and
    after: "concat after = post"
    by blast
  from r0 sc r have "?loop (pre @ [c] @ post) ([], []) = Inr (l', c')"
    by (simp add: breakLoop_append)
  with fin have
    "breakTextIntoLines (pre @ [c] @ post) (provider measureText) fontSize maxWidth
       = Inr (before @ [[c]] @ after)"
    by (simp add: breakTextIntoLines_def)
  with before after show ?thesis by blast
qed

theorem C3_wide_unit_alone_witness:
  "prefixMonotone (monoFont :: string \<Rightarrow> real \<Rightarrow> real) 10 \<and>
   suffixMonotone (monoFont :: string \<Rightarrow> real \<Rightarrow> real) 10 \<and>
   5 < monoFont ''b'' 10 \<and>
   (\<exists>before after.
      breakTextIntoLines (''a'' @ ''b'' @ ''c'') (provider monoFont) 10 5
        = Inr (before @ [''b''] @ after)
      \<and> concat before = ''a'' \<and> concat after = ''c'')"
proof -
  have p: "prefixMonotone (monoFont :: string \<Rightarrow> real \<Rightarrow> real) 10"
    by (simp add: prefixMonotone_def monoFont_def)
  have s: "suffixMonotone (monoFont :: string \<Rightarrow> real \<Rightarrow> real) 10"
    by (simp add: suffixMonotone_def monoFont_def)
  have w: "5 < monoFont [CHR ''b''] 10" by (simp add: monoFont_def)
  from C3_wide_unit_alone [OF p s w, of "''a''" "''c''"] p s w show ?thesis by simp
qed

text \<open>
  C4 (as the specification states it: for every width function the number of lines
  does not grow when \<open>maxWidth\<close> grows). With \<open>leadFont\<close>, which is monotonic under prefix
  extension, the text \<open>abcd\<close> takes 2 lines at \<open>maxWidth = 3\<close> and 3 lines at
  \<open>maxWidth = 5\<close>.
\<close>

theorem C4_width_monotone_counterexample:
  "prefixMonotone leadFont 1 \<and> (3::real) \<le> 5 \<and>
   breakTextIntoLines ''abcd'' (provider leadFont) 1 3 = Inr [''a'', ''bcd''] \<and>
   breakTextIntoLines ''abcd'' (provider leadFont) 1 5 = Inr [''ab'', ''c'', ''d''] \<and>
   \<not> length [''ab'', ''c'', ''d''] \<le> length [''a'', ''bcd'']"
  using leadFont_prefixMonotone
  by (simp add: breakTextIntoLines_def breakStep_provider leadFont_def leadWidth_def)

text \<open>
  C4 (amended). For every text and \<open>fontSize\<close>, and every width function under which
  removing leading code units never makes a string wider, the number of lines returned
  is non-increasing in \<open>maxWidth\<close>.
\<close>

theorem C4_width_monotone:
  assumes "suffixMonotone measureText fontSize" and "maxWidth1 \<le> maxWidth2"
  shows "\<exists>lines1 lines2.
           breakTextIntoLines text (provider measureText) fontSize maxWidth1 = Inr lines1
         \<and> breakTextIntoLines text (provider measureText) fontSize maxWidth2 = Inr lines2
         \<and> length lines2 \<le> length lines1"
proof -
  obtain l1 c1 where
    r1: "breakLoop (provider measureText) fontSize maxWidth1 text ([], []) = Inr (l1, c1)"
    using breakLoop_provider_returns by (metis surj_pair)
  obtain l2 c2 where
    r2: "breakLoop (provider measureText) fontSize maxWidth2 text ([], []) = Inr (l2, c2)"
    using breakLoop_provider_returns by (metis surj_pair)
  from breakLoop_ahead [OF assms r1 r2]
  have "length l2 < length l1 \<or> (length l2 = length l1 \<and> (\<exists>p. c1 = p @ c2))" by simp
  then have "length (if length c2 > 0 then l2 @ [c2] else l2)
               \<le> length (if length c1 > 0 then l1 @ [c1] else l1)"
    by auto
  with r1 r2 show ?thesis by (simp add: breakTextIntoLines_def)
qed

theorem C4_width_monotone_witness:
  "suffixMonotone (monoFont :: string \<Rightarrow> real \<Rightarrow> real) 10 \<and> (15::real) \<le> 25 \<and>
   (\<exists>lines1 lines2.
      breakTextIntoLines ''abcd'' (provider monoFont) 10 15 = Inr lines1
    \<and> breakTextIntoLines ''abcd'' (provider monoFont) 10 25 = Inr lines2
    \<and> length lines2 \<le> length lines1)"
proof -
  have s: "suffixMonotone (monoFont :: string \<Rightarrow> real \<Rightarrow> real) 10"
    by (simp add: suffixMonotone_def monoFont_def)
  have le: "(15::real) \<le> 25" by simp
  from C4_width_monotone [OF s le, of "''abcd''"] s le show ?thesis by simp
qed

text \<open>
  C7. The overflow test is strict: in every state of the loop in which the tentative
  line \<open>currentLine + char\<close> measures exactly \<open>maxWidth\<close>, the step keeps the code unit on
  the current line and pushes nothing.
\<close>

theorem C7_strict_comparison:
  assumes "font (currentLine @ [char]) fontSize = Inr maxWidth"
  shows "breakStep font fontSize maxWidth (lines, currentLine) char
           = Inr (lines, currentLine @ [char])"
  using assms by (simp add: breakStep_def)

theorem C7_strict_comparison_witness:
  "provider monoFont (''a'' @ [CHR ''b'']) 10 = Inr 20 \<and>
   breakStep (provider monoFont) 10 20 ([], ''a'') (CHR ''b'') = Inr ([], ''a'' @ [CHR ''b''])"
proof -
  have h: "provider monoFont (''a'' @ [CHR ''b'']) 10 = Inr 20"
    by (simp add: provider_def monoFont_def)
  from h C7_strict_comparison
    [where font = "provider monoFont" and currentLine = "''a''" and char = "CHR ''b''"
       and fontSize = 10 and maxWidth = 20 and lines = "[]"]
  show ?thesis by simp
qed

text \<open>
  C10. For every \<open>maxWidth \<le> 0\<close> and every input the call returns (the loop is a
  primitive recursion over the code units, one step each) and raises nothing; if moreover
  every non-empty string has a strictly positive width, the result has exactly one line
  per code unit of the input.
\<close>

theorem C10_nonpositive_maxWidth:
  assumes "maxWidth \<le> 0"
  shows "\<exists>lines. breakTextIntoLines text (provider measureText) fontSize maxWidth = Inr lines
           \<and> (positiveWidths measureText fontSize
                \<longrightarrow> lines = map (\<lambda>c. [c]) text \<and> length lines = length text)"
proof (cases "positiveWidths measureText fontSize")
  case True
  from breakTextIntoLines_every_unit [OF assms True, of "text"] show ?thesis by simp
next
  case False
  then show ?thesis using breakTextIntoLines_provider_returns by blast
qed

theorem C10_nonpositive_maxWidth_witness:
  "(- 5 :: real) \<le> 0 \<and> positiveWidths (monoFont :: string \<Rightarrow> real \<Rightarrow> real) 10 \<and>
   (\<exists>lines. breakTextIntoLines ''abc'' (provider monoFont) 10 (- 5) = Inr lines
      \<and> lines = [''a'', ''b'', ''c''] \<and> length lines = length ''abc'')"
proof -
  have h: "(- 5 :: real) \<le> 0" by simp
  have p: "positiveWidths (monoFont :: string \<Rightarrow> real \<Rightarrow> real) 10"
    by (simp add: positiveWidths_def monoFont_def)
  from h p C10_nonpositive_maxWidth [OF h, of "''abc''" monoFont 10] show ?thesis by simp
qed

text \<open>
  C9 (as the specification states it: a call with \<open>maxWidth \<le> 0\<close> or \<open>fontSize \<le> 0\<close>
  fails with an \<open>InvalidParameter\<close> failure). The source validates neither parameter:
  with \<open>maxWidth = 0\<close> the call returns one line per code unit, and with \<open>fontSize = 0\<close>
  it returns the text as one line.
\<close>

theorem C9_no_InvalidParameter_counterexample:
  "breakTextIntoLines ''ab'' (provider monoFont) 120 0 = Inr [''a'', ''b''] \<and>
   breakTextIntoLines ''ab'' (provider monoFont) 120 0 \<noteq> Inl InvalidParameter \<and>
   breakTextIntoLines ''ab'' (provider monoFont) 0 500 = Inr [''ab''] \<and>
   breakTextIntoLines ''ab'' (provider monoFont) 0 500 \<noteq> Inl InvalidParameter"
  by (simp add: breakTextIntoLines_def breakStep_provider monoFont_def)

text \<open>
  C9 (amended). For every call with \<open>maxWidth \<le> 0\<close> or \<open>fontSize \<le> 0\<close> and a metrics
  provider that returns widths, the function does not fail: it returns lines whose
  concatenation is the input, at most one line per code unit.
\<close>

theorem C9_degenerate_geometry_returns:
  assumes "maxWidth \<le> 0 \<or> fontSize \<le> 0"
  shows "\<exists>lines. breakTextIntoLines text (provider measureText) fontSize maxWidth = Inr lines
           \<and> concat lines = text \<and> length lines \<le> length text"
  using breakTextIntoLines_provider_facts [of "text" measureText fontSize maxWidth] by blast

theorem C9_degenerate_geometry_returns_witness:
  "((0::real) \<le> 0 \<or> (120::real) \<le> 0) \<and>
   (\<exists>lines. breakTextIntoLines ''ab'' (provider monoFont) 120 0 = Inr lines
      \<and> concat lines = ''ab'' \<and> length lines \<le> length ''ab'')"
proof -
  have h: "(0::real) \<le> 0 \<or> (120::real) \<le> 0" by simp
  from h C9_degenerate_geometry_returns [OF h, of "''ab''" monoFont] show ?thesis by simp
qed

subsection \<open>Claims about the positioning\<close>

text \<open>
  C5 (as the specification states it: for every placed line \<open>x + lineWidth / 2\<close> is
  exactly \<open>pageWidth / 2\<close>). On a page 841.89 wide a line that measures 133.44 is drawn at
  \<open>x = 354.225\<close> (each the binary64 value nearest to the decimal), and \<open>x + lineWidth / 2\<close>
  exceeds \<open>width / 2\<close> by \<open>2^-45\<close>, in exact arithmetic on these values: the subtraction
  \<open>width - lineWidth\<close> has rounded.
\<close>

theorem C5_centering_counterexample:
  "(\<exists>ops. positionLines CONFIG (provider sansFont) (fl (84189 / 100)) 600 [''aa''] = Inr ops
      \<and> dt_x (hd ops) = 3115796050791629 / 8796093022208
      \<and> dt_x (hd ops) + sansFont ''aa'' 120 / 2 \<noteq> fl (84189 / 100) / 2)
   \<and> sansFont ''aa'' 120 = 2347501305766871 / 17592186044416
   \<and> fl (84189 / 100) = 7405342754466693 / 8796093022208"
  by (simp add: positionLines_provider placed_def sansFont_aa A4_long C5_x CONFIG_def)

text \<open>
  C5 (amended). The positioning makes one \<open>drawText\<close> call per line, in order, each with
  \<open>x\<close> computed from that line's own measured width, and \<open>x + lineWidth / 2 = width / 2\<close>
  holds up to rounding: the difference is exactly half the rounding error of
  \<open>width - lineWidth\<close>, at most \<open>|width - lineWidth| / 2^54\<close>, and zero when that
  subtraction is exact.
\<close>

theorem C5_centering_rounded:
  "\<exists>ops. positionLines cfg (provider measureText) width height lines = Inr ops
     \<and> length ops = length lines
     \<and> (\<forall>i < length lines.
          dt_text (ops ! i) = lines ! i
        \<and> dt_x (ops ! i) + measureText (lines ! i) (cfg_fontSize cfg) / 2 - width / 2
            = roundingError (width - measureText (lines ! i) (cfg_fontSize cfg)) / 2
        \<and> \<bar>dt_x (ops ! i) + measureText (lines ! i) (cfg_fontSize cfg) / 2 - width / 2\<bar>
            \<le> \<bar>width - measureText (lines ! i) (cfg_fontSize cfg)\<bar> / 2 ^ 54)"
proof -
  let ?f = "placed measureText (cfg_fontSize cfg) width
              (startY cfg height (length lines)) (lineHeight cfg)"
  let ?ops = "map ?f (enumerate 0 lines)"
  have r: "positionLines cfg (provider measureText) width height lines = Inr ?ops"
    by (rule positionLines_provider)
  have "dt_text (?ops ! i) = lines ! i
        \<and> dt_x (?ops ! i) + measureText (lines ! i) (cfg_fontSize cfg) / 2 - width / 2
            = roundingError (width - measureText (lines ! i) (cfg_fontSize cfg)) / 2
        \<and> \<bar>dt_x (?ops ! i) + measureText (lines ! i) (cfg_fontSize cfg) / 2 - width / 2\<bar>
            \<le> \<bar>width - measureText (lines ! i) (cfg_fontSize cfg)\<bar> / 2 ^ 54"
    if i: "i < length lines" for i
  proof -
    from i have nth: "?ops ! i = ?f (i, lines ! i)" by (simp add: nth_enumerate_eq)
    have t: "dt_text (?ops ! i) = lines ! i" by (simp add: nth placed_def)
    have x: "dt_x (?ops ! i) + measureText (lines ! i) (cfg_fontSize cfg) / 2 - width / 2
            = roundingError (width - measureText (lines ! i) (cfg_fontSize cfg)) / 2"
      unfolding nth by (rule placed_x)
    have "\<bar>roundingError (width - measureText (lines ! i) (cfg_fontSize cfg))\<bar>
            \<le> \<bar>width - measureText (lines ! i) (cfg_fontSize cfg)\<bar> / 2 ^ 53"
      unfolding roundingError_def by (rule fl_relative_error)
    then have "\<bar>roundingError (width - measureText (lines ! i) (cfg_fontSize cfg)) / 2\<bar>
            \<le> \<bar>width - measureText (lines ! i) (cfg_fontSize cfg)\<bar> / 2 ^ 54"
      by simp
    then have b: "\<bar>dt_x (?ops ! i) + measureText (lines ! i) (cfg_fontSize cfg) / 2 - width / 2\<bar>
            \<le> \<bar>width - measureText (lines ! i) (cfg_fontSize cfg)\<bar> / 2 ^ 54"
      unfolding x .
    from t x b show ?thesis by (intro conjI)
  qed
  with r show ?thesis by (intro exI [of _ ?ops]) simp
qed

theorem C5_centering_rounded_witness:
  "\<exists>ops. positionLines CONFIG (provider monoFont) 300 800 [''ab'', ''c''] = Inr ops
     \<and> length ops = length [''ab'', ''c'']
     \<and> dt_text (ops ! 1) = [''ab'', ''c''] ! 1
     \<and> dt_x (ops ! 1) + monoFont ([''ab'', ''c''] ! 1) (cfg_fontSize CONFIG) / 2 - 300 / 2
         = roundingError (300 - monoFont ([''ab'', ''c''] ! 1) (cfg_fontSize CONFIG)) / 2
     \<and> \<bar>dt_x (ops ! 1) + monoFont ([''ab'', ''c''] ! 1) (cfg_fontSize CONFIG) / 2 - 300 / 2\<bar>
         \<le> \<bar>300 - monoFont ([''ab'', ''c''] ! 1) (cfg_fontSize CONFIG)\<bar> / 2 ^ 54"
proof -
  have i: "(1::nat) < length [''ab'', ''c'']" by simp
  from C5_centering_rounded [of CONFIG monoFont 300 800 "[''ab'', ''c'']"] i
  show ?thesis by blast
qed

text \<open>
  C6 (as the specification states it: the midpoint of \<open>firstLineY + fontSize\<close> and
  \<open>lastLineY\<close> equals \<open>targetCenterY\<close>). On a page 841.89 high, with the source's
  configuration and six lines, the first line is drawn at \<open>y = 961.8899999999999\<close>, the
  last at \<open>y = 121.88999999999987\<close>, and \<open>targetCenterY\<close> is \<open>601.89\<close>: the midpoint is
  \<open>2^-43\<close> below it, in exact arithmetic on these values.
\<close>

theorem C6_vertical_anchor_counterexample:
  "(\<exists>ops. positionLines CONFIG (provider monoFont) 600 (fl (84189 / 100))
             [''a'', ''b'', ''c'', ''d'', ''e'', ''f''] = Inr ops
      \<and> dt_y (hd ops) = 2115218479282913 / 2199023255552
      \<and> dt_y (last ops) = 268038944619233 / 2199023255552
      \<and> ((dt_y (hd ops) + cfg_fontSize CONFIG) + dt_y (last ops)) / 2
           \<noteq> targetCenterY CONFIG (fl (84189 / 100)))
   \<and> targetCenterY CONFIG (fl (84189 / 100)) = 5294280429136773 / 8796093022208
   \<and> fl (84189 / 100) = 7405342754466693 / 8796093022208"
proof -
  have s: "startY CONFIG (7405342754466693 / 8796093022208) (Suc (Suc (Suc (Suc (Suc (Suc 0))))))
             = 2115218479282913 / 2199023255552"
    by (rule startY_A4_6) simp
  show ?thesis
    by (simp add: positionLines_provider placed_def A4_long s lineHeight_CONFIG lastLineY_A4_6
        targetCenterY_A4 CONFIG_fields)
qed

text \<open>
  C6 (amended). For every non-empty sequence of \<open>n\<close> lines, the first line is drawn at
  \<open>y = startY\<close> and the last at \<open>y = startY - (n - 1) * lineHeight\<close> as the source rounds
  it, and the midpoint of \<open>firstLineY + fontSize\<close> and \<open>lastLineY\<close> equals \<open>targetCenterY\<close>
  up to rounding: the difference is exactly the sum of the rounding errors of the four
  additions and subtractions that form \<open>totalTextHeight\<close>, \<open>startY\<close> and \<open>lastLineY\<close> (the
  first and the last of them halved), at most
  \<open>(|totalTextHeight| / 2 + |anchor| + |startY| + |lastLineY| / 2) / 2^53\<close>, where \<open>anchor\<close>
  is the rounded sum \<open>targetCenterY + totalTextHeight / 2\<close> inside \<open>startY\<close>. For a single
  line this midpoint is the line's vertical centre \<open>y + fontSize / 2\<close>. The number of
  lines is at most \<open>2^53\<close> (a JavaScript array holds fewer than \<open>2^32\<close> elements), so that
  \<open>lines.length - 1\<close> is exact.
\<close>

theorem C6_vertical_anchor_rounded:
  assumes "lines \<noteq> []" and "length lines \<le> 2 ^ 53"
  shows "\<exists>ops. positionLines cfg (provider measureText) width height lines = Inr ops
     \<and> length ops = length lines
     \<and> (let fontSize = cfg_fontSize cfg;
             tcy = targetCenterY cfg height;
             tth = totalTextHeight cfg (length lines);
             offset = mul64 (real (length lines - 1)) (lineHeight cfg);
             anchor = add64 tcy (div64 tth 2);
             firstLineY = dt_y (hd ops);
             lastLineY = dt_y (last ops);
             midpoint = ((firstLineY + fontSize) + lastLineY) / 2
         in firstLineY = startY cfg height (length lines)
          \<and> lastLineY = sub64 (startY cfg height (length lines)) offset
          \<and> midpoint - tcy =
               roundingError (offset + fontSize) / 2 + roundingError (tcy + tth / 2)
               + roundingError (anchor - fontSize) + roundingError (firstLineY - offset) / 2
          \<and> \<bar>midpoint - tcy\<bar>
               \<le> (\<bar>tth\<bar> / 2 + \<bar>anchor\<bar> + \<bar>firstLineY\<bar> + \<bar>lastLineY\<bar> / 2) / 2 ^ 53
          \<and> (length lines = 1 \<longrightarrow> midpoint = firstLineY + fontSize / 2))"
proof -
  let ?n = "length lines"
  let ?fs = "cfg_fontSize cfg"
  let ?lh = "lineHeight cfg"
  let ?tcy = "targetCenterY cfg height"
  let ?P = "mul64 (real (?n - 1)) ?lh"
  let ?T = "totalTextHeight cfg ?n"
  let ?A = "add64 ?tcy (div64 ?T 2)"
  let ?sY = "startY cfg height ?n"
  let ?f = "placed measureText ?fs width ?sY ?lh"
  let ?ops = "map ?f (enumerate 0 lines)"
  let ?last = "sub64 ?sY ?P"
  from assms(1) have n1: "1 \<le> ?n" by (cases lines) simp_all
  \<comment> \<open>the intermediate values of step 8\<close>
  from n1 have d: "real ?n - 1 = real (?n - 1)" by simp
  from assms(2) have "fl (real (?n - 1)) = real (?n - 1)" by (intro fl_of_nat) simp
  then have k: "sub64 (real ?n) 1 = real (?n - 1)" unfolding sub64_def d .
  have T: "?T = fl (?P + ?fs)" unfolding totalTextHeight_def add64_def k ..
  have H: "div64 ?T 2 = ?T / 2" unfolding T by (rule div64_fl_2)
  have A: "?A = fl (?tcy + ?T / 2)" unfolding add64_def H ..
  have sY: "?sY = fl (?A - ?fs)" unfolding startY_def sub64_def ..
  \<comment> \<open>the first and the last call\<close>
  have r: "positionLines cfg (provider measureText) width height lines = Inr ?ops"
    by (rule positionLines_provider)
  from assms(1) have ne: "enumerate 0 lines \<noteq> []" by (cases lines) simp_all
  from assms(1) have h: "hd (enumerate 0 lines) = (0, hd lines)" by (cases lines) simp_all
  from ne have "last (enumerate 0 lines) = enumerate 0 lines ! (?n - 1)"
    by (simp add: last_conv_nth)
  with assms(1) have l: "last (enumerate 0 lines) = (?n - 1, lines ! (?n - 1))"
    by (simp add: nth_enumerate_eq)
  have "fl ?sY = ?sY" unfolding sY by (rule fl_idem)
  with ne h have first: "dt_y (hd ?ops) = ?sY"
    by (simp add: hd_map placed_def sub64_def mul64_def)
  from ne l have lst: "dt_y (last ?ops) = ?last"
    by (simp add: last_map placed_def)
  \<comment> \<open>the four operations that can round\<close>
  define e4 where "e4 = roundingError (?P + ?fs)"
  define e2 where "e2 = roundingError (?tcy + ?T / 2)"
  define e3 where "e3 = roundingError (?A - ?fs)"
  define e1 where "e1 = roundingError (?sY - ?P)"
  have q4: "?T = ?P + ?fs + e4" by (simp add: e4_def roundingError_def T)
  have q2: "?A = ?tcy + ?T / 2 + e2" by (simp add: e2_def roundingError_def A)
  have q3: "?sY = ?A - ?fs + e3" by (simp add: e3_def roundingError_def sY)
  have q1: "?last = ?sY - ?P + e1" by (simp add: e1_def roundingError_def sub64_def)
  from q1 q2 q3 q4 have dev: "((?sY + ?fs) + ?last) / 2 - ?tcy = e4 / 2 + e2 + e3 + e1 / 2"
    by argo
  have b4: "\<bar>e4\<bar> \<le> \<bar>?T\<bar> / 2 ^ 53"
    unfolding e4_def T by (rule roundingError_bound)
  have b2: "\<bar>e2\<bar> \<le> \<bar>?A\<bar> / 2 ^ 53"
    unfolding e2_def A by (rule roundingError_bound)
  have b3: "\<bar>e3\<bar> \<le> \<bar>?sY\<bar> / 2 ^ 53"
    unfolding e3_def sY by (rule roundingError_bound)
  have b1: "\<bar>e1\<bar> \<le> \<bar>?last\<bar> / 2 ^ 53"
    unfolding e1_def sub64_def by (rule roundingError_bound)
  from b4 b2 b3 b1
  have "\<bar>e4 / 2 + e2 + e3 + e1 / 2\<bar>
      \<le> (\<bar>?T\<bar> / 2 + \<bar>?A\<bar> + \<bar>?sY\<bar> + \<bar>?last\<bar> / 2) / 2 ^ 53"
    by (rule four_errors_bound)
  then have bound: "\<bar>((?sY + ?fs) + ?last) / 2 - ?tcy\<bar>
      \<le> (\<bar>?T\<bar> / 2 + \<bar>?A\<bar> + \<bar>?sY\<bar> + \<bar>?last\<bar> / 2) / 2 ^ 53"
    unfolding dev .
  \<comment> \<open>one line: the last call is the first\<close>
  have one: "((?sY + ?fs) + ?last) / 2 = ?sY + ?fs / 2" if "?n = 1"
  proof -
    from that have "?P = 0" by (simp add: mul64_def)
    then have "?last = fl ?sY" by (simp add: sub64_def)
    also have "\<dots> = ?sY" unfolding sY by (rule fl_idem)
    finally show ?thesis by simp
  qed
  have c3: "((dt_y (hd ?ops) + ?fs) + dt_y (last ?ops)) / 2 - ?tcy =
      roundingError (?P + ?fs) / 2 + roundingError (?tcy + ?T / 2)
      + roundingError (?A - ?fs) + roundingError (dt_y (hd ?ops) - ?P) / 2"
    unfolding first lst using dev unfolding e1_def e2_def e3_def e4_def .
  have c4: "\<bar>((dt_y (hd ?ops) + ?fs) + dt_y (last ?ops)) / 2 - ?tcy\<bar>
      \<le> (\<bar>?T\<bar> / 2 + \<bar>?A\<bar> + \<bar>dt_y (hd ?ops)\<bar> + \<bar>dt_y (last ?ops)\<bar> / 2) / 2 ^ 53"
    unfolding first lst by (rule bound)
  have c5: "?n = 1 \<longrightarrow>
      ((dt_y (hd ?ops) + ?fs) + dt_y (last ?ops)) / 2 = dt_y (hd ?ops) + ?fs / 2"
    unfolding first lst using one by (rule impI)
  have len: "length ?ops = ?n" by simp
  show ?thesis
    unfolding Let_def
    using r len first lst c3 c4 c5 by (intro exI [of _ ?ops] conjI)
qed

theorem C6_vertical_anchor_rounded_witness:
  "[''ab'', ''cd''] \<noteq> [] \<and> length [''ab'', ''cd''] \<le> 2 ^ 53
   \<and> (\<exists>ops. positionLines CONFIG (provider monoFont) 300 800 [''ab'', ''cd''] = Inr ops
        \<and> dt_y (hd ops) = 584 \<and> dt_y (last ops) = 416
        \<and> ((dt_y (hd ops) + 120) + dt_y (last ops)) / 2 - targetCenterY CONFIG 800 =
             roundingError (mul64 (real (length [''ab'', ''cd''] - 1)) (lineHeight CONFIG) + 120) / 2
             + roundingError
                 (targetCenterY CONFIG 800 + totalTextHeight CONFIG (length [''ab'', ''cd'']) / 2)
             + roundingError
                 (add64 (targetCenterY CONFIG 800)
                    (div64 (totalTextHeight CONFIG (length [''ab'', ''cd''])) 2) - 120)
             + roundingError
                 (dt_y (hd ops) - mul64 (real (length [''ab'', ''cd''] - 1)) (lineHeight CONFIG)) / 2)
   \<and> [''ab''] \<noteq> [] \<and> length [''ab''] \<le> 2 ^ 53 \<and> length [''ab''] = 1
   \<and> (\<exists>ops. positionLines CONFIG (provider monoFont) 300 800 [''ab''] = Inr ops
        \<and> dt_y (hd ops) = 500
        \<and> ((dt_y (hd ops) + 120) + dt_y (last ops)) / 2 = dt_y (hd ops) + 120 / 2)"
proof -
  have h2: "[''ab'', ''cd''] \<noteq> []" and l2: "length [''ab'', ''cd''] \<le> 2 ^ 53" by simp_all
  have h1: "[''ab''] \<noteq> []" and l1: "length [''ab''] \<le> 2 ^ 53" by simp_all
  have s2: "startY CONFIG 800 (length [''ab'', ''cd'']) = 584" by (rule startY_800) simp
  have s1: "startY CONFIG 800 (length [''ab'']) = 500" by (rule startY_800) simp
  have y2: "sub64 584 (mul64 (real (length [''ab'', ''cd''] - 1)) (lineHeight CONFIG)) = 416"
    by (simp add: lineHeight_CONFIG sub64_def mul64_def)
  from C6_vertical_anchor_rounded [OF h2 l2, of CONFIG monoFont 300 800]
  have a: "\<exists>ops. positionLines CONFIG (provider monoFont) 300 800 [''ab'', ''cd''] = Inr ops
        \<and> dt_y (hd ops) = 584 \<and> dt_y (last ops) = 416
        \<and> ((dt_y (hd ops) + 120) + dt_y (last ops)) / 2 - targetCenterY CONFIG 800 =
             roundingError (mul64 (real (length [''ab'', ''cd''] - 1)) (lineHeight CONFIG) + 120) / 2
             + roundingError
                 (targetCenterY CONFIG 800 + totalTextHeight CONFIG (length [''ab'', ''cd'']) / 2)
             + roundingError
                 (add64 (targetCenterY CONFIG 800)
                    (div64 (totalTextHeight CONFIG (length [''ab'', ''cd''])) 2) - 120)
             + roundingError
                 (dt_y (hd ops) - mul64 (real (length [''ab'', ''cd''] - 1)) (lineHeight CONFIG)) / 2"
    unfolding Let_def s2 y2 CONFIG_fields by blast
  from C6_vertical_anchor_rounded [OF h1 l1, of CONFIG monoFont 300 800]
  have b: "\<exists>ops. positionLines CONFIG (provider monoFont) 300 800 [''ab''] = Inr ops
        \<and> dt_y (hd ops) = 500
        \<and> ((dt_y (hd ops) + 120) + dt_y (last ops)) / 2 = dt_y (hd ops) + 120 / 2"
    unfolding Let_def s1 CONFIG_fields by auto
  from h2 l2 a h1 l1 b show ?thesis by simp
qed

text \<open>
  C8. For every request, the calls to \<open>drawText\<close> are one per line that
  \<open>breakTextIntoLines\<close> returned for the name at \<open>maxWidth = width - 60\<close> (as the source
  rounds it), with the same strings in the same order: nothing is merged, split or
  reordered, and the two sequences have the same length.
\<close>

theorem C8_one_draw_per_line:
  "\<exists>lines ops.
      breakTextIntoLines name (provider measureText) (cfg_fontSize cfg) (sub64 width 60)
        = Inr lines
    \<and> generatePDF cfg (provider measureText) width height name = Inr ops
    \<and> length ops = length lines \<and> map dt_text ops = lines"
proof -
  obtain lines where
    r: "breakTextIntoLines name (provider measureText) (cfg_fontSize cfg) (sub64 width 60)
          = Inr lines"
    using breakTextIntoLines_provider_returns by blast
  have m: "mul64 30 2 = 60" by (simp add: mul64_def)
  from r have "generatePDF cfg (provider measureText) width height name =
      Inr (map (placed measureText (cfg_fontSize cfg) width
                 (startY cfg height (length lines)) (lineHeight cfg))
            (enumerate 0 lines))"
    by (simp add: generatePDF_def m positionLines_provider)
  with r show ?thesis using map_text_placed by fastforce
qed

theorem C8_one_draw_per_line_witness:
  "\<exists>lines ops.
      breakTextIntoLines ''abcd'' (provider monoFont) (cfg_fontSize CONFIG) (sub64 300 60)
        = Inr lines
    \<and> generatePDF CONFIG (provider monoFont) 300 800 ''abcd'' = Inr ops
    \<and> length ops = length lines \<and> map dt_text ops = lines"
  using C8_one_draw_per_line [of "''abcd''" monoFont CONFIG 300 800] by simp

text \<open>
  The request of the witness, evaluated: two lines of two code units each, 168 apart.
\<close>

lemma generatePDF_example:
  "generatePDF CONFIG (provider monoFont) 300 800 ''abcd'' =
     Inr [\<lparr>dt_text = ''ab'', dt_x = 30, dt_y = 584, dt_size = 120\<rparr>,
          \<lparr>dt_text = ''cd'', dt_x = 30, dt_y = 416, dt_size = 120\<rparr>]"
proof -
  have w: "sub64 300 (mul64 30 2) = 240" by (simp add: sub64_def mul64_def)
  have l: "breakTextIntoLines ''abcd'' (provider monoFont) 120 240 = Inr [''ab'', ''cd'']"
    by (simp add: breakTextIntoLines_def breakStep_provider monoFont_def)
  have s: "startY CONFIG 800 (Suc (Suc 0)) = 584" by (rule startY_800) simp
  show ?thesis
    by (simp add: generatePDF_def CONFIG_fields w l positionLines_provider placed_def s
        lineHeight_CONFIG monoFont_def sub64_def mul64_def div64_def)
qed

end
